theory Spec2Isabelle
  imports Main
begin

section \<open>Python string primitives used by the encoder\<close>

text \<open>
  A Python \<open>str\<close> is modelled as a \<open>string\<close>, one \<open>char\<close> per code point, which
  covers the code points 0..255. Every constant of the script and every hexadecimal address
  lies in the ASCII part of that range.
\<close>

definition lower_char :: "char \<Rightarrow> char" where
  \<comment> \<open>\<open>str.lower()\<close> on one code point below 256: A..Z, and the Latin-1 capitals
      U+00C0..U+00DE without the multiplication sign U+00D7, move up by 32.\<close>
  "lower_char c =
     (let n = (of_char c :: nat)
      in if (65 \<le> n \<and> n \<le> 90) \<or> (192 \<le> n \<and> n \<le> 222 \<and> n \<noteq> 215)
         then char_of (n + 32) else c)"

definition lower :: "string \<Rightarrow> string" where
  "lower s = map lower_char s"

function replace :: "string \<Rightarrow> string \<Rightarrow> string \<Rightarrow> string" where
  \<comment> \<open>\<open>s.replace(old, new)\<close>: every non-overlapping occurrence, scanning from the left.
      With an empty \<open>old\<close>, Python puts \<open>new\<close> before every character and at the end.\<close>
  "replace old new [] = (if old = [] then new else [])"
| "replace old new (c # cs) =
     (if old = [] then new @ c # replace old new cs
      else if take (length old) (c # cs) = old
           then new @ replace old new (drop (length old) (c # cs))
           else c # replace old new cs)"
  by pat_completeness auto
termination
  by (relation "measure (\<lambda>(old, new, s). length s)") auto

definition zfill :: "nat \<Rightarrow> string \<Rightarrow> string" where
  \<comment> \<open>\<open>s.zfill(width)\<close>: unchanged when already wide enough; otherwise zeros on the left,
      put after a leading sign character if there is one.\<close>
  "zfill width s =
     (if width \<le> length s then s
      else (case s of
              [] \<Rightarrow> replicate width CHR ''0''
            | c # cs \<Rightarrow>
                if c = CHR ''+'' \<or> c = CHR ''-''
                then c # replicate (width - length s) CHR ''0'' @ cs
                else replicate (width - length s) CHR ''0'' @ s))"

definition hex_digit :: "nat \<Rightarrow> char" where
  \<comment> \<open>The digit table of the integer formatter; only indices below 16 are ever read.\<close>
  "hex_digit d = ''0123456789abcdef'' ! d"

function hex_digits :: "int \<Rightarrow> string" where
  \<comment> \<open>The lower-case base-16 digits of a non-negative integer, most significant first,
      no leading zero (one digit for 0). \<open>hex\<close> calls it on absolute values only.\<close>
  "hex_digits n =
     (if n < 16 then [hex_digit (nat n)]
      else hex_digits (n div 16) @ [hex_digit (nat (n mod 16))])"
  by pat_completeness auto
termination
  by (relation "measure nat") auto

declare hex_digits.simps [simp del]

definition hex :: "int \<Rightarrow> string" where
  \<comment> \<open>The builtin \<open>hex\<close>: \<open>0x\<close> and the digits, with a minus sign in front for a negative
      number.\<close>
  "hex v = (if v < 0 then ''-0x'' @ hex_digits (- v) else ''0x'' @ hex_digits v)"

section \<open>Argument encoder\<close>

definition encode_address :: "string \<Rightarrow> string" where
  \<comment> \<open>\<open>addr.lower().replace("0x", "").zfill(64)\<close>\<close>
  "encode_address addr = zfill 64 (replace ''0x'' '''' (lower addr))"

definition encode_uint256 :: "int \<Rightarrow> string" where
  \<comment> \<open>\<open>hex(val)[2:].zfill(64)\<close>\<close>
  "encode_uint256 val = zfill 64 (drop 2 (hex val))"


text \<open>
  The spec's reading of an encoding, used to state what the encoder returns: the lower-case
  hexadecimal digits, and the number a digit string denotes in base 16.
\<close>

definition is_lower_hex :: "char \<Rightarrow> bool" where
  "is_lower_hex c = (c \<in> set ''0123456789abcdef'')"

definition is_hex :: "char \<Rightarrow> bool" where
  "is_hex c = (c \<in> set ''0123456789abcdefABCDEF'')"

definition hex_digit_value :: "char \<Rightarrow> nat" where
  "hex_digit_value c = length (takeWhile (\<lambda>d. d \<noteq> c) ''0123456789abcdef'')"

definition hex_value :: "string \<Rightarrow> int" where
  "hex_value s = foldl (\<lambda>a c. 16 * a + int (hex_digit_value c)) 0 s"

section \<open>The contract registry\<close>

datatype error =
    IndexError | KeyError | TypeError | AttributeError | ValueError | UnicodeDecodeError
  | OSError | JSONDecodeError | URLError | HTTPError nat "error + string"

text \<open>
  An \<open>HTTPError\<close> carries the status code and what \<open>e.read().decode()\<close> gives when
  a handler asks for the error body: the text, or the exception that reading or decoding
  raises (\<open>UnicodeDecodeError\<close> for a body that is not UTF-8).
\<close>

record contract_info =
  address :: string
  source :: string
  args :: "string option"

type_synonym registry = "(string \<times> contract_info) list"

definition DEPLOYER :: string where
  "DEPLOYER = ''0x00CC14AF7d9ce9Be4fdf9aE858632a00287edE11''"

definition CONTRACTS :: registry where
  \<comment> \<open>The dict literal, in insertion order; \<open>None\<close> is the placeholder "will be computed".\<close>
  "CONTRACTS =
     [(''ClawRenderer'',
         \<lparr>address = ''0x90f493bfB740F00E6Cf280f4B9A6943d4b96d274'',
          source = ''contracts/ClawRenderer.sol'', args = Some ''0x''\<rparr>),
      (''ClawRegistry'',
         \<lparr>address = ''0x01949e45FabCD684bcD4747966145140aB4778E5'',
          source = ''contracts/ClawRegistry.sol'', args = None\<rparr>),
      (''ClawEvolution'',
         \<lparr>address = ''0xed61D90c46343D0399de04a2CDEd195A217aa583'',
          source = ''contracts/ClawEvolution.sol'', args = None\<rparr>),
      (''ClawReputation'',
         \<lparr>address = ''0x2E031ad274261e1a58C033d61F3b0f310c419904'',
          source = ''contracts/ClawReputation.sol'', args = None\<rparr>)]"

definition getitem :: "('k \<times> 'v) list \<Rightarrow> 'k \<Rightarrow> error + 'v" where
  \<comment> \<open>\<open>d[k]\<close> on a dict\<close>
  "getitem d k = (case map_of d k of None \<Rightarrow> Inl KeyError | Some v \<Rightarrow> Inr v)"

definition setitem :: "('k \<times> 'v) list \<Rightarrow> 'k \<Rightarrow> 'v \<Rightarrow> ('k \<times> 'v) list" where
  \<comment> \<open>\<open>d[k] = v\<close> on a dict: a present key keeps its place, a new key goes last.\<close>
  "setitem d k v =
     (case map_of d k of
        None \<Rightarrow> d @ [(k, v)]
      | Some _ \<Rightarrow> map (\<lambda>(k', v'). if k' = k then (k', v) else (k', v')) d)"

definition set_args :: "string \<Rightarrow> string \<Rightarrow> registry \<Rightarrow> error + registry" where
  \<comment> \<open>\<open>CONTRACTS[name]["args"] = v\<close>\<close>
  "set_args name v reg =
     (case getitem reg name of
        Inl e \<Rightarrow> Inl e
      | Inr info \<Rightarrow> Inr (setitem reg name (info\<lparr>args := Some v\<rparr>)))"

definition compute_constructor_args :: "registry \<Rightarrow> error + registry" where
  \<comment> \<open>The function reads and writes the global \<open>CONTRACTS\<close>; the model takes the dict
      and returns it updated.\<close>
  "compute_constructor_args reg =
     (case getitem reg ''ClawRenderer'' of Inl e \<Rightarrow> Inl e | Inr renderer \<Rightarrow>
      case getitem reg ''ClawRegistry'' of Inl e \<Rightarrow> Inl e | Inr registry \<Rightarrow>
      let renderer_addr = address renderer;
          registry_addr = address registry
      in
      case set_args ''ClawRegistry''
             (''0x'' @ encode_address renderer_addr @ encode_uint256 500000000000000
                @ encode_address DEPLOYER) reg of Inl e \<Rightarrow> Inl e | Inr reg1 \<Rightarrow>
      case set_args ''ClawEvolution'' (''0x'' @ encode_address registry_addr) reg1 of
        Inl e \<Rightarrow> Inl e | Inr reg2 \<Rightarrow>
      set_args ''ClawReputation'' (''0x'' @ encode_address registry_addr) reg2)"

section \<open>Artifact loader\<close>

datatype json =
    JNull | JBool bool | JNum int | JStr string
  | JArr "json list" | JObj "(string \<times> json) list"

text \<open>
  What \<open>json.load\<close> returns: \<open>None\<close>, a bool, a number, a str, a list or a dict (its
  items in order, each key once). The program never computes with a JSON number, so
  integers stand for all of them.

  The file system and the verification service are the run's environment. The k-th
  network call of a run gets the outcome the environment holds for k, whatever the request
  was: as the script is sequential, every behaviour of the service is one such sequence.
  \<^item> \<open>fs_listdir d\<close>: \<open>os.listdir(d)\<close>;
  \<^item> \<open>fs_load_json p\<close>: \<open>open(p)\<close> and \<open>json.load\<close> on the file;
  \<^item> \<open>net_post k\<close>: \<open>urlopen\<close> of the POST and \<open>int(resp.read().decode())\<close>:
    \<open>HTTPError\<close> for a non-2xx response, \<open>URLError\<close> when no response arrives,
    \<open>ValueError\<close> for a body that is no integer;
  \<^item> \<open>net_get k\<close>: \<open>urlopen\<close> of the GET and \<open>json.loads\<close> of the body.
\<close>

record env =
  fs_listdir :: "string \<Rightarrow> error + string list"
  fs_load_json :: "string \<Rightarrow> error + json"
  net_post :: "nat \<Rightarrow> error + int"
  net_get :: "nat \<Rightarrow> error + json"

definition py_str :: "(json \<Rightarrow> string) \<Rightarrow> json \<Rightarrow> string" where
  \<comment> \<open>A value inside an f-string. A str is put in as it is; \<open>fmt\<close> is Python's text for
      the other values, which nothing here depends on.\<close>
  "py_str fmt v = (case v of JStr s \<Rightarrow> s | _ \<Rightarrow> fmt v)"

definition subscript :: "json \<Rightarrow> string \<Rightarrow> error + json" where
  \<comment> \<open>\<open>obj[key]\<close> with a str key: only a dict can be indexed by a str.\<close>
  "subscript obj key =
     (case obj of
        JObj kvs \<Rightarrow> (case map_of kvs key of None \<Rightarrow> Inl KeyError | Some v \<Rightarrow> Inr v)
      | _ \<Rightarrow> Inl TypeError)"

definition dict_get :: "json \<Rightarrow> string \<Rightarrow> json \<Rightarrow> error + json" where
  \<comment> \<open>\<open>obj.get(key, dflt)\<close>: only a dict has the method.\<close>
  "dict_get obj key dflt =
     (case obj of
        JObj kvs \<Rightarrow> (case map_of kvs key of None \<Rightarrow> Inr dflt | Some v \<Rightarrow> Inr v)
      | _ \<Rightarrow> Inl AttributeError)"

definition items :: "json \<Rightarrow> error + (string \<times> json) list" where
  \<comment> \<open>\<open>obj.items()\<close>\<close>
  "items obj = (case obj of JObj kvs \<Rightarrow> Inr kvs | _ \<Rightarrow> Inl AttributeError)"

definition endswith :: "string \<Rightarrow> string \<Rightarrow> bool" where
  "endswith s suffix =
     (length suffix \<le> length s \<and> drop (length s - length suffix) s = suffix)"

definition path_join :: "string \<Rightarrow> string \<Rightarrow> string" where
  \<comment> \<open>\<open>os.path.join\<close> of two components on POSIX\<close>
  "path_join a b =
     (if b \<noteq> [] \<and> hd b = CHR ''/'' then b
      else if a = [] \<or> last a = CHR ''/'' then a @ b
      else a @ ''/'' @ b)"

definition build_dir :: string where
  "build_dir = ''artifacts-zk/build-info''"

definition read_build_info :: "env \<Rightarrow> error + json" where
  \<comment> \<open>The three statements that open both \<open>load_source_code\<close> and
      \<open>get_zksolc_version\<close>: list the directory, keep the \<open>.json\<close> names, load the first.\<close>
  "read_build_info env =
     (case fs_listdir env build_dir of
        Inl e \<Rightarrow> Inl e
      | Inr names \<Rightarrow>
          (case filter (\<lambda>f. endswith f ''.json'') names of
             [] \<Rightarrow> Inl IndexError
           | f # _ \<Rightarrow> fs_load_json env (path_join build_dir f)))"

definition load_source_code :: "env \<Rightarrow> error + json \<times> json" where
  "load_source_code env =
     (case read_build_info env of Inl e \<Rightarrow> Inl e | Inr build_info \<Rightarrow>
      case subscript build_info ''input'' of Inl e \<Rightarrow> Inl e | Inr inp \<Rightarrow>
      case subscript build_info ''solcVersion'' of Inl e \<Rightarrow> Inl e | Inr ver \<Rightarrow>
      Inr (inp, ver))"

fun scan_contracts :: "(json \<Rightarrow> string) \<Rightarrow> (string \<times> json) list \<Rightarrow> error + string option" where
  \<comment> \<open>The inner loop of \<open>get_zksolc_version\<close>; \<open>Some v\<close> is its \<open>return\<close>.\<close>
  "scan_contracts fmt [] = Inr None"
| "scan_contracts fmt ((contract_name, contract_data) # rest) =
     (case dict_get contract_data ''metadata'' (JObj []) of
        Inl e \<Rightarrow> Inl e
      | Inr (JObj metadata) \<Rightarrow>
          (case map_of metadata ''zk_version'' of
             Some v \<Rightarrow> Inr (Some (''v'' @ py_str fmt v))
           | None \<Rightarrow> scan_contracts fmt rest)
      | Inr _ \<Rightarrow> scan_contracts fmt rest)"

fun scan_sources :: "(json \<Rightarrow> string) \<Rightarrow> (string \<times> json) list \<Rightarrow> error + string option" where
  \<comment> \<open>The outer loop of \<open>get_zksolc_version\<close>.\<close>
  "scan_sources fmt [] = Inr None"
| "scan_sources fmt ((source_name, contracts) # rest) =
     (case items contracts of
        Inl e \<Rightarrow> Inl e
      | Inr cs \<Rightarrow>
          (case scan_contracts fmt cs of
             Inl e \<Rightarrow> Inl e
           | Inr (Some v) \<Rightarrow> Inr (Some v)
           | Inr None \<Rightarrow> scan_sources fmt rest))"

definition get_zksolc_version :: "env \<Rightarrow> (json \<Rightarrow> string) \<Rightarrow> error + string" where
  "get_zksolc_version env fmt =
     (case read_build_info env of Inl e \<Rightarrow> Inl e | Inr build_info \<Rightarrow>
      case dict_get build_info ''output'' (JObj []) of Inl e \<Rightarrow> Inl e | Inr out \<Rightarrow>
      case dict_get out ''contracts'' (JObj []) of Inl e \<Rightarrow> Inl e | Inr cs \<Rightarrow>
      case items cs of Inl e \<Rightarrow> Inl e | Inr srcs \<Rightarrow>
      case scan_sources fmt srcs of
        Inl e \<Rightarrow> Inl e
      | Inr (Some v) \<Rightarrow> Inr v
      | Inr None \<Rightarrow> Inr ''v1.5.10'')"

section \<open>Verification client\<close>

record request =
  contractAddress :: string
  sourceCode :: json
  codeFormat :: string
  contractName :: string
  compilerSolcVersion :: json
  compilerZksolcVersion :: string
  constructorArguments :: "string option"
  optimizationUsed :: bool

text \<open>
  The state of a run is the list of the network calls made so far, each with the outcome
  it got. Its length is the number of the next call.
\<close>

datatype event =
    POST request "error + int"
  | GET int "error + json"

definition build_request ::
  "string \<Rightarrow> contract_info \<Rightarrow> json \<Rightarrow> json \<Rightarrow> string \<Rightarrow> request" where
  \<comment> \<open>The \<open>request\<close> dict of \<open>submit_verification\<close>.\<close>
  "build_request contract_name contract_info source_code solc_version zksolc_version =
     \<lparr>contractAddress = address contract_info,
      sourceCode = source_code,
      codeFormat = ''solidity-standard-json-input'',
      contractName = source contract_info @ '':'' @ contract_name,
      compilerSolcVersion = solc_version,
      compilerZksolcVersion = zksolc_version,
      constructorArguments = args contract_info,
      optimizationUsed = True\<rparr>"

definition submit_verification ::
  "env \<Rightarrow> string \<Rightarrow> contract_info \<Rightarrow> json \<Rightarrow> json \<Rightarrow> string \<Rightarrow> event list
     \<Rightarrow> (error + int option) \<times> event list" where
  \<comment> \<open>Only \<open>HTTPError\<close> is caught by the \<open>except\<close> clause. The handler reads and
      decodes the error body to print it, and returns \<open>None\<close>; an exception of
      \<open>e.read().decode()\<close> leaves the handler and the function.\<close>
  "submit_verification env contract_name contract_info source_code solc_version
       zksolc_version log =
     (let req = build_request contract_name contract_info source_code solc_version
                  zksolc_version;
          outcome = net_post env (length log);
          log' = log @ [POST req outcome]
      in case outcome of
           Inr verification_id \<Rightarrow> (Inr (Some verification_id), log')
         | Inl (HTTPError code (Inr error_body)) \<Rightarrow> (Inr None, log')
         | Inl (HTTPError code (Inl e)) \<Rightarrow> (Inl e, log')
         | Inl e \<Rightarrow> (Inl e, log'))"

definition check_status :: "env \<Rightarrow> int \<Rightarrow> event list \<Rightarrow> (error + json) \<times> event list" where
  "check_status env verification_id log =
     (let outcome = net_get env (length log)
      in (outcome, log @ [GET verification_id outcome]))"

fun wait_for_verification ::
  "env \<Rightarrow> int \<Rightarrow> string \<Rightarrow> nat \<Rightarrow> event list \<Rightarrow> (error + bool \<times> json) \<times> event list" where
  \<comment> \<open>\<open>for i in range(max_retries)\<close>: the fourth argument counts the iterations that are
      left. The error value of the returned pair is \<open>None\<close>, a str or whatever the service
      put in its \<open>error\<close> field.\<close>
  "wait_for_verification env verification_id contract_name 0 log =
     (Inr (False, JStr ''Timeout waiting for verification''), log)"
| "wait_for_verification env verification_id contract_name (Suc n) log =
     (case check_status env verification_id log of
        (Inl e, log') \<Rightarrow> (Inl e, log')
      | (Inr status, log') \<Rightarrow>
          (case dict_get status ''status'' (JStr ''unknown'') of
             Inl e \<Rightarrow> (Inl e, log')
           | Inr state \<Rightarrow>
               if state = JStr ''successful'' then (Inr (True, JNull), log')
               else if state = JStr ''failed'' then
                 (case dict_get status ''error'' (JStr ''Unknown error'') of
                    Inl e \<Rightarrow> (Inl e, log')
                  | Inr err \<Rightarrow> (Inr (False, err), log'))
               else wait_for_verification env verification_id contract_name n log'))"

definition max_retries_default :: nat where
  "max_retries_default = 15"

section \<open>Verification orchestrator\<close>

type_synonym report = "(string \<times> string) list"

fun verify_all ::
  "env \<Rightarrow> (json \<Rightarrow> string) \<Rightarrow> json \<Rightarrow> json \<Rightarrow> string \<Rightarrow> registry \<Rightarrow> report \<Rightarrow> event list
     \<Rightarrow> (error + report) \<times> event list" where
  \<comment> \<open>The loop \<open>for name, info in CONTRACTS.items()\<close> of \<open>main\<close>, over the items that
      are left. Printing the constructor arguments slices and measures \<open>info['args']\<close>,
      which raises on \<open>None\<close>.\<close>
  "verify_all env fmt source_code solc_version zksolc_version [] results log =
     (Inr results, log)"
| "verify_all env fmt source_code solc_version zksolc_version ((name, info) # rest)
       results log =
     (case args info of
        None \<Rightarrow> (Inl TypeError, log)
      | Some _ \<Rightarrow>
          (case submit_verification env name info source_code solc_version
                  zksolc_version log of
             (Inl e, log1) \<Rightarrow> (Inl e, log1)
           | (Inr None, log1) \<Rightarrow>
               verify_all env fmt source_code solc_version zksolc_version rest
                 (setitem results name ''FAILED (submission error)'') log1
           | (Inr (Some vid), log1) \<Rightarrow>
               (case wait_for_verification env vid name max_retries_default log1 of
                  (Inl e, log2) \<Rightarrow> (Inl e, log2)
                | (Inr (success, err), log2) \<Rightarrow>
                    verify_all env fmt source_code solc_version zksolc_version rest
                      (setitem results name
                         (if success then ''VERIFIED'' else ''FAILED: '' @ py_str fmt err))
                      log2)))"

definition main :: "env \<Rightarrow> (json \<Rightarrow> string) \<Rightarrow> (error + report \<times> bool) \<times> event list" where
  \<comment> \<open>Returns what the run ends with, an uncaught exception or the printed report with
      the truth value of \<open>all(r == "VERIFIED" for r in results.values())\<close>, and the
      network calls made.\<close>
  "main env fmt =
     (case compute_constructor_args CONTRACTS of Inl e \<Rightarrow> (Inl e, []) | Inr contracts \<Rightarrow>
      case load_source_code env of Inl e \<Rightarrow> (Inl e, []) | Inr (source_code, solc_version) \<Rightarrow>
      case get_zksolc_version env fmt of Inl e \<Rightarrow> (Inl e, []) | Inr zksolc_version \<Rightarrow>
      case verify_all env fmt source_code solc_version zksolc_version contracts [] [] of
        (Inl e, log) \<Rightarrow> (Inl e, log)
      | (Inr results, log) \<Rightarrow>
          (Inr (results, list_all (\<lambda>r. r = ''VERIFIED'') (map snd results)), log))"

definition exit_code :: "error + report \<times> bool \<Rightarrow> int" where
  \<comment> \<open>\<open>sys.exit(0 if main() else 1)\<close>; an exception that leaves \<open>main\<close> ends the
      interpreter with status 1.\<close>
  "exit_code r = (case r of Inl e \<Rightarrow> 1 | Inr (results, ok) \<Rightarrow> if ok then 0 else 1)"

section \<open>Notions used to state the properties\<close>

text \<open>
  None of these is code of the script: they read a run's list of network calls and the
  outcomes the environment hands out.
\<close>

definition is_HTTPError :: "error \<Rightarrow> bool" where
  "is_HTTPError e = (case e of HTTPError code body \<Rightarrow> True | _ \<Rightarrow> False)"

definition is_caught :: "error \<Rightarrow> bool" where
  \<comment> \<open>The outcomes of a POST that \<open>submit_verification\<close> turns into \<open>None\<close>: an
      \<open>HTTPError\<close> whose error body the handler can read and decode.\<close>
  "is_caught e = (case e of HTTPError code (Inr body) \<Rightarrow> True | _ \<Rightarrow> False)"

definition raised :: "error \<Rightarrow> error" where
  \<comment> \<open>The exception that leaves \<open>submit_verification\<close> when the POST ends with an
      exception that is not caught.\<close>
  "raised e = (case e of HTTPError code (Inl e') \<Rightarrow> e' | _ \<Rightarrow> e)"

definition is_GET :: "event \<Rightarrow> bool" where
  "is_GET ev = (case ev of GET vid outcome \<Rightarrow> True | POST req outcome \<Rightarrow> False)"



section \<open>Example environments\<close>

text \<open>
  A build-info directory with one build-info file, and a service that is given by its
  answers to the POST and GET calls.
\<close>

definition example_build_info :: json where
  "example_build_info =
     JObj [(''id'', JStr ''5f2c''),
           (''solcVersion'', JStr ''0.8.24''),
           (''input'', JObj [(''language'', JStr ''Solidity'')]),
           (''output'',
              JObj [(''contracts'',
                 JObj [(''contracts/ClawRenderer.sol'',
                    JObj [(''ClawRenderer'',
                       JObj [(''metadata'', JObj [(''zk_version'', JStr ''1.5.7'')])])])])])]"

definition example_env ::
  "string list \<Rightarrow> (nat \<Rightarrow> error + int) \<Rightarrow> (nat \<Rightarrow> error + json) \<Rightarrow> env" where
  "example_env names posts gets =
     \<lparr>fs_listdir = (\<lambda>d. if d = build_dir then Inr names else Inl OSError),
      fs_load_json =
        (\<lambda>p. if p = ''artifacts-zk/build-info/5f2c.json'' then Inr example_build_info
              else Inl OSError),
      net_post = posts,
      net_get = gets\<rparr>"

definition example_fmt :: "json \<Rightarrow> string" where
  "example_fmt v =
     (case v of JNull \<Rightarrow> ''None'' | JBool b \<Rightarrow> if b then ''True'' else ''False'' | _ \<Rightarrow> ''...'')"

definition status_reply :: "string \<Rightarrow> error + json" where
  "status_reply state = Inr (JObj [(''status'', JStr state)])"

definition env_all_verified :: env where
  "env_all_verified =
     example_env [''5f2c.json''] (\<lambda>k. Inr 41) (\<lambda>k. status_reply ''successful'')"


definition env_no_build_info :: env where
  "env_no_build_info =
     example_env [''README.md'', ''5f2c.json.bak''] (\<lambda>k. Inr 41)
       (\<lambda>k. status_reply ''successful'')"

definition env_unreachable :: env where
  "env_unreachable =
     example_env [''5f2c.json''] (\<lambda>k. Inl URLError) (\<lambda>k. status_reply ''successful'')"



section \<open>Facts about the string primitives\<close>

lemma hex_digit_table:
  "list_all (\<lambda>d. is_lower_hex (hex_digit d) \<and> hex_digit_value (hex_digit d) = d) [0..<16]"
  by code_simp

lemma hex_digit_is_lower_hex: "d < 16 \<Longrightarrow> is_lower_hex (hex_digit d)"
proof -
  assume "d < 16"
  then have "d \<in> set [0..<16]" by simp
  with hex_digit_table show ?thesis unfolding list_all_iff by blast
qed

lemma hex_digit_value_hex_digit: "d < 16 \<Longrightarrow> hex_digit_value (hex_digit d) = d"
proof -
  assume "d < 16"
  then have "d \<in> set [0..<16]" by simp
  with hex_digit_table show ?thesis unfolding list_all_iff by blast
qed

lemma hex_digits_not_Nil: "hex_digits n \<noteq> []"
  by (subst hex_digits.simps) simp

lemma hex_digits_lower_hex: "list_all is_lower_hex (hex_digits n)"
proof (induction n rule: hex_digits.induct)
  case (1 n)
  show ?case
  proof (cases "n < 16")
    case True
    then have "nat n < 16" by simp
    with True show ?thesis by (subst hex_digits.simps) (simp add: hex_digit_is_lower_hex)
  next
    case False
    have "nat (n mod 16) < 16" by simp
    with False 1 show ?thesis
      by (subst hex_digits.simps) (simp add: hex_digit_is_lower_hex)
  qed
qed

lemma hex_value_snoc: "hex_value (s @ [c]) = 16 * hex_value s + int (hex_digit_value c)"
  by (simp add: hex_value_def)

lemma hex_value_hex_digits: "0 \<le> n \<Longrightarrow> hex_value (hex_digits n) = n"
proof (induction n rule: hex_digits.induct)
  case (1 n)
  show ?case
  proof (cases "n < 16")
    case True
    with 1 have "nat n < 16" by simp
    with True 1 show ?thesis
      by (subst hex_digits.simps) (simp add: hex_value_def hex_digit_value_hex_digit)
  next
    case False
    have m: "nat (n mod 16) < 16" by simp
    from 1 have "0 \<le> n div 16" by simp
    with False 1 have "hex_value (hex_digits (n div 16)) = n div 16" by simp
    with False m show ?thesis
      by (subst hex_digits.simps) (simp add: hex_value_snoc hex_digit_value_hex_digit)
  qed
qed

lemma hex_value_zeros: "hex_value (replicate k CHR ''0'' @ s) = hex_value s"
proof -
  have z: "foldl (\<lambda>a c. 16 * a + int (hex_digit_value c)) 0 (replicate k CHR ''0'') = 0"
    by (induction k) (simp_all add: hex_digit_value_def)
  show ?thesis by (simp add: hex_value_def z)
qed

lemma hex_digits_upper: "n < 16 ^ length (hex_digits n)"
proof (induction n rule: hex_digits.induct)
  case (1 n)
  show ?case
  proof (cases "n < 16")
    case True
    then show ?thesis by (subst hex_digits.simps) simp
  next
    case False
    with 1 have "n div 16 < 16 ^ length (hex_digits (n div 16))" by simp
    then have "n < 16 * 16 ^ length (hex_digits (n div 16))"
      by arith
    with False show ?thesis by (subst hex_digits.simps) simp
  qed
qed

lemma hex_digits_lower: "0 < n \<Longrightarrow> 16 ^ (length (hex_digits n) - 1) \<le> n"
proof (induction n rule: hex_digits.induct)
  case (1 n)
  show ?case
  proof (cases "n < 16")
    case True
    with 1 show ?thesis by (subst hex_digits.simps) simp
  next
    case False
    then have pos: "0 < n div 16" by simp
    with False 1 have "16 ^ (length (hex_digits (n div 16)) - 1) \<le> n div 16" by simp
    then have "16 * 16 ^ (length (hex_digits (n div 16)) - 1) \<le> n" by simp
    moreover have "0 < length (hex_digits (n div 16))"
      using hex_digits_not_Nil by simp
    ultimately have "16 ^ length (hex_digits (n div 16)) \<le> n"
      by (cases "length (hex_digits (n div 16))") simp_all
    with False show ?thesis by (subst hex_digits.simps) simp
  qed
qed

lemma hex_digits_length_le:
  assumes k: "0 < k" and n: "0 \<le> n"
  shows "length (hex_digits n) \<le> k \<longleftrightarrow> n < 16 ^ k"
proof
  assume "length (hex_digits n) \<le> k"
  then have "(16::int) ^ length (hex_digits n) \<le> 16 ^ k" by (simp add: power_increasing)
  with hex_digits_upper [of n] show "n < 16 ^ k" by (rule less_le_trans)
next
  assume lt: "n < 16 ^ k"
  show "length (hex_digits n) \<le> k"
  proof (cases "n = 0")
    case True
    with k show ?thesis by (subst hex_digits.simps) simp
  next
    case False
    with n have "16 ^ (length (hex_digits n) - 1) \<le> n" using hex_digits_lower [of n] by simp
    from this lt have "(16::int) ^ (length (hex_digits n) - 1) < 16 ^ k" by (rule le_less_trans)
    then have "length (hex_digits n) - 1 < k" by (simp add: power_strict_increasing_iff)
    then show ?thesis by simp
  qed
qed

lemma zfill_no_sign:
  assumes "s \<noteq> []" and "hd s \<noteq> CHR ''+''" and "hd s \<noteq> CHR ''-''"
  shows "zfill w s = replicate (w - length s) CHR ''0'' @ s"
  using assms by (cases s) (simp_all add: zfill_def)

lemma lower_hex_plain:
  "is_lower_hex c \<Longrightarrow> c \<noteq> CHR ''+'' \<and> c \<noteq> CHR ''-'' \<and> c \<noteq> CHR ''x''"
  by (auto simp: is_lower_hex_def)

lemma list_all_lower_hex_zeros: "list_all is_lower_hex (replicate k CHR ''0'')"
  by (induction k) (simp_all add: is_lower_hex_def)

lemma hex_digits_hd: "is_lower_hex (hd (hex_digits n))"
  using hex_digits_lower_hex [of n] hex_digits_not_Nil [of n]
  by (cases "hex_digits n") simp_all

lemma encode_uint256_nonneg:
  assumes "0 \<le> v"
  shows "encode_uint256 v = replicate (64 - length (hex_digits v)) CHR ''0'' @ hex_digits v"
proof -
  have "drop 2 (hex v) = hex_digits v"
    using assms by (simp add: hex_def)
  moreover have "hd (hex_digits v) \<noteq> CHR ''+''" "hd (hex_digits v) \<noteq> CHR ''-''"
    using hex_digits_hd [of v] lower_hex_plain by blast+
  ultimately show ?thesis
    by (simp add: encode_uint256_def zfill_no_sign hex_digits_not_Nil)
qed

lemma encode_uint256_neg:
  assumes "v < 0"
  shows "encode_uint256 v =
         replicate (63 - length (hex_digits (- v))) CHR ''0'' @ CHR ''x'' # hex_digits (- v)"
proof -
  have "drop 2 (hex v) = CHR ''x'' # hex_digits (- v)"
    using assms by (simp add: hex_def)
  then show ?thesis
    by (simp add: encode_uint256_def zfill_no_sign)
qed

lemma lower_char_table:
  "list_all (\<lambda>c. is_lower_hex (lower_char c)) ''0123456789abcdefABCDEF''"
  by code_simp

lemma lower_char_is_lower_hex: "is_hex c \<Longrightarrow> is_lower_hex (lower_char c)"
proof -
  assume "is_hex c"
  then have "c \<in> set ''0123456789abcdefABCDEF''" by (simp only: is_hex_def)
  with lower_char_table [unfolded list_all_iff] show ?thesis by (rule bspec)
qed

lemma lower_is_lower_hex: "list_all is_hex s \<Longrightarrow> list_all is_lower_hex (lower s)"
  by (induction s) (simp_all add: lower_def lower_char_is_lower_hex)

lemma replace_0x_Cons:
  "replace ''0x'' [] (c # cs) =
     (if c = CHR ''0'' \<and> cs \<noteq> [] \<and> hd cs = CHR ''x'' then replace ''0x'' [] (tl cs)
      else c # replace ''0x'' [] cs)"
  by (cases cs) auto

lemma replace_0x_absent: "CHR ''x'' \<notin> set s \<Longrightarrow> replace ''0x'' [] s = s"
proof (induction s)
  case Nil
  show ?case by simp
next
  case (Cons c cs)
  then have "cs \<noteq> [] \<Longrightarrow> hd cs \<noteq> CHR ''x''" by (cases cs) auto
  with Cons show ?case by (subst replace_0x_Cons) auto
qed

lemma replace_0x_prefix: "replace ''0x'' [] (''0x'' @ s) = replace ''0x'' [] s"
  by (simp add: replace_0x_Cons)

lemma lower_hex_no_x: "list_all is_lower_hex s \<Longrightarrow> CHR ''x'' \<notin> set s"
  using lower_hex_plain unfolding list_all_iff by blast

lemma lower_prefixes: "lower ''0x'' = ''0x''" "lower ''0X'' = ''0x''"
  by code_simp+

section \<open>The argument encoder\<close>

text \<open>
  C8, as amended. \<open>encode_uint256(0)\<close> is 64 zero characters. 500000000000000 is
  \<open>0x1c6bf52634000\<close>, thirteen digits: \<open>encode_uint256(500000000000000)\<close> is 51 zero
  characters followed by \<open>1c6bf52634000\<close>.
\<close>

theorem encode_uint256_known_values:
  "encode_uint256 0 = replicate 64 CHR ''0''
   \<and> encode_uint256 500000000000000 = replicate 51 CHR ''0'' @ ''1c6bf52634000''"
  by code_simp

text \<open>
  C8 as the claim words it: 50 zero characters followed by the fourteen digits
  \<open>1c6bf526340000\<close> is not what \<open>encode_uint256(500000000000000)\<close> returns.
\<close>

theorem encode_uint256_mint_price_counterexample:
  "encode_uint256 500000000000000 \<noteq> replicate 50 CHR ''0'' @ ''1c6bf526340000''"
  by code_simp

text \<open>
  C6, as amended. For every non-negative integer, \<open>encode_uint256\<close> returns the
  hexadecimal digits of the input with zeros on the left up to 64 characters: lower-case
  hexadecimal characters only, denoting the input in base 16. The result has exactly 64
  characters if and only if the input is below \<open>2 ^ 256\<close>.
\<close>

theorem encode_uint256_padded_hex:
  assumes "0 \<le> v"
  shows "encode_uint256 v = replicate (64 - length (hex_digits v)) CHR ''0'' @ hex_digits v
       \<and> list_all is_lower_hex (encode_uint256 v)
       \<and> hex_value (encode_uint256 v) = v
       \<and> (length (encode_uint256 v) = 64 \<longleftrightarrow> v < 2 ^ 256)"
proof -
  let ?d = "hex_digits v"
  have e: "encode_uint256 v = replicate (64 - length ?d) CHR ''0'' @ ?d"
    using assms by (rule encode_uint256_nonneg)
  have h: "list_all is_lower_hex (encode_uint256 v)"
    by (simp add: e list_all_lower_hex_zeros hex_digits_lower_hex)
  have r: "hex_value (encode_uint256 v) = v"
    using assms by (simp add: e hex_value_zeros hex_value_hex_digits)
  have "length (encode_uint256 v) = 64 \<longleftrightarrow> length ?d \<le> 64"
    by (simp add: e) arith
  also have "\<dots> \<longleftrightarrow> v < 16 ^ 64"
    using assms by (intro hex_digits_length_le) simp_all
  also have "\<dots> \<longleftrightarrow> v < 2 ^ 256"
    by simp
  finally have l: "length (encode_uint256 v) = 64 \<longleftrightarrow> v < 2 ^ 256" .
  from e h r l show ?thesis by blast
qed

theorem encode_uint256_padded_hex_witness:
  "(0::int) \<le> 255
   \<and> (encode_uint256 255 = replicate (64 - length (hex_digits 255)) CHR ''0'' @ hex_digits 255
      \<and> list_all is_lower_hex (encode_uint256 255)
      \<and> hex_value (encode_uint256 255) = 255
      \<and> (length (encode_uint256 255) = 64 \<longleftrightarrow> (255::int) < 2 ^ 256))
   \<and> encode_uint256 255 = replicate 62 CHR ''0'' @ ''ff''"
proof -
  have h: "(0::int) \<le> 255" by simp
  have v: "encode_uint256 255 = replicate 62 CHR ''0'' @ ''ff''" by code_simp
  from h encode_uint256_padded_hex [OF h] v show ?thesis by blast
qed

text \<open>
  C6 as the claim words it: \<open>2 ^ 256\<close> is a non-negative integer, and its encoding has
  65 characters.
\<close>

theorem encode_uint256_length_counterexample:
  "(0::int) \<le> 2 ^ 256 \<and> length (encode_uint256 (2 ^ 256)) = 65"
  by code_simp

text \<open>
  C5, as amended. For every negative integer \<open>encode_uint256\<close> raises nothing: it
  returns the character \<open>x\<close> and the hexadecimal digits of the absolute value, with zeros
  on the left up to 64 characters, which is not a string of hexadecimal digits.
\<close>

theorem encode_uint256_negative:
  assumes "v < 0"
  shows "encode_uint256 v =
           replicate (63 - length (hex_digits (- v))) CHR ''0'' @ CHR ''x'' # hex_digits (- v)
       \<and> \<not> list_all is_lower_hex (encode_uint256 v)"
  using assms by (simp add: encode_uint256_neg is_lower_hex_def)

theorem encode_uint256_negative_witness:
  "(- 31 :: int) < 0
   \<and> (encode_uint256 (- 31) =
         replicate (63 - length (hex_digits (- (- 31)))) CHR ''0''
           @ CHR ''x'' # hex_digits (- (- 31))
      \<and> \<not> list_all is_lower_hex (encode_uint256 (- 31)))
   \<and> encode_uint256 (- 31) = replicate 61 CHR ''0'' @ ''x1f''"
proof -
  have h: "(- 31 :: int) < 0" by simp
  have v: "encode_uint256 (- 31) = replicate 61 CHR ''0'' @ ''x1f''" by code_simp
  from h encode_uint256_negative [OF h] v show ?thesis by blast
qed

text \<open>
  C5 as the claim words it: on the negative input \<open>-1\<close> the function returns a string.
\<close>

theorem encode_uint256_negative_counterexample:
  "encode_uint256 (- 1) = replicate 62 CHR ''0'' @ ''x1''"
  by code_simp

text \<open>
  C7. For a 20-byte address, that is 40 hexadecimal characters in any letter case, given
  bare or after the prefix \<open>0x\<close> (or \<open>0X\<close>), \<open>encode_address\<close> returns the 40 characters
  in lower case after 24 zeros: 64 lower-case hexadecimal characters.
\<close>

theorem encode_address_valid:
  assumes len: "length body = 40"
      and hex: "list_all is_hex body"
      and addr: "addr = body \<or> addr = ''0x'' @ body \<or> addr = ''0X'' @ body"
  shows "encode_address addr = replicate 24 CHR ''0'' @ lower body
       \<and> length (encode_address addr) = 64
       \<and> list_all is_lower_hex (encode_address addr)"
proof -
  let ?b = "lower body"
  have lh: "list_all is_lower_hex ?b" using hex by (rule lower_is_lower_hex)
  then have nox: "CHR ''x'' \<notin> set ?b" by (rule lower_hex_no_x)
  have lb: "length ?b = 40" using len by (simp add: lower_def)
  then have ne: "?b \<noteq> []" by auto
  with lh have "is_lower_hex (hd ?b)" by (cases ?b) simp_all
  then have sign: "hd ?b \<noteq> CHR ''+''" "hd ?b \<noteq> CHR ''-''"
    using lower_hex_plain by blast+
  have app: "lower (p @ body) = lower p @ ?b" for p by (simp add: lower_def)
  from addr have "lower addr = ?b \<or> lower addr = ''0x'' @ ?b"
    by (auto simp only: app lower_prefixes)
  moreover have ra: "replace ''0x'' [] ?b = ?b"
    using nox by (rule replace_0x_absent)
  moreover have "replace ''0x'' [] (''0x'' @ ?b) = ?b"
    using ra by (simp only: replace_0x_prefix)
  ultimately have "replace ''0x'' [] (lower addr) = ?b"
    by metis
  then have e: "encode_address addr = replicate 24 CHR ''0'' @ ?b"
    using ne sign lb by (simp add: encode_address_def zfill_no_sign)
  show ?thesis
    using lh lb by (simp add: e list_all_lower_hex_zeros)
qed

theorem encode_address_valid_witness:
  "length ''90f493bfB740F00E6Cf280f4B9A6943d4b96d274'' = 40
   \<and> list_all is_hex ''90f493bfB740F00E6Cf280f4B9A6943d4b96d274''
   \<and> (encode_address ''0x90f493bfB740F00E6Cf280f4B9A6943d4b96d274'' =
         replicate 24 CHR ''0'' @ lower ''90f493bfB740F00E6Cf280f4B9A6943d4b96d274''
      \<and> length (encode_address ''0x90f493bfB740F00E6Cf280f4B9A6943d4b96d274'') = 64
      \<and> list_all is_lower_hex (encode_address ''0x90f493bfB740F00E6Cf280f4B9A6943d4b96d274''))
   \<and> encode_address ''0x90f493bfB740F00E6Cf280f4B9A6943d4b96d274'' =
       ''00000000000000000000000090f493bfb740f00e6cf280f4b9a6943d4b96d274''"
proof -
  let ?body = "''90f493bfB740F00E6Cf280f4B9A6943d4b96d274''"
  let ?addr = "''0x90f493bfB740F00E6Cf280f4B9A6943d4b96d274''"
  have h1: "length ?body = 40" by simp
  have h2: "list_all is_hex ?body" by code_simp
  have h3: "?addr = ?body \<or> ?addr = ''0x'' @ ?body \<or> ?addr = ''0X'' @ ?body" by simp
  have v: "encode_address ?addr =
             ''00000000000000000000000090f493bfb740f00e6cf280f4b9a6943d4b96d274''"
    by code_simp
  from h1 h2 encode_address_valid [OF h1 h2 h3] v show ?thesis by blast
qed

section \<open>The registry after argument resolution\<close>

lemma resolved_registry:
  "(case compute_constructor_args CONTRACTS of
      Inl e \<Rightarrow> False
    | Inr reg \<Rightarrow>
        map (\<lambda>c. (fst c, address (snd c))) reg = map (\<lambda>c. (fst c, address (snd c))) CONTRACTS
      \<and> distinct (map fst reg)
      \<and> distinct (map (\<lambda>c. address (snd c)) reg)
      \<and> list_all (\<lambda>c. args (snd c) \<noteq> None) reg)"
  by code_simp

lemma resolved_facts:
  assumes "compute_constructor_args CONTRACTS = Inr contracts"
  shows "map fst contracts = map fst CONTRACTS"
    and "map (\<lambda>c. address (snd c)) contracts = map (\<lambda>c. address (snd c)) CONTRACTS"
    and "distinct (map fst contracts)"
    and "distinct (map (\<lambda>c. address (snd c)) contracts)"
    and "(name, info) \<in> set CONTRACTS \<Longrightarrow>
           \<exists>info'. (name, info') \<in> set contracts \<and> address info' = address info"
    and "list_all (\<lambda>c. args (snd c) \<noteq> None) contracts"
proof -
  from resolved_registry assms have
    m: "map (\<lambda>c. (fst c, address (snd c))) contracts = map (\<lambda>c. (fst c, address (snd c))) CONTRACTS"
    and d1: "distinct (map fst contracts)"
    and d2: "distinct (map (\<lambda>c. address (snd c)) contracts)"
    and a: "list_all (\<lambda>c. args (snd c) \<noteq> None) contracts"
    by simp_all
  from m have "map fst (map (\<lambda>c. (fst c, address (snd c))) contracts) =
               map fst (map (\<lambda>c. (fst c, address (snd c))) CONTRACTS)" by simp
  then show "map fst contracts = map fst CONTRACTS" by (simp add: comp_def)
  from m have "map snd (map (\<lambda>c. (fst c, address (snd c))) contracts) =
               map snd (map (\<lambda>c. (fst c, address (snd c))) CONTRACTS)" by simp
  then show "map (\<lambda>c. address (snd c)) contracts = map (\<lambda>c. address (snd c)) CONTRACTS"
    by (simp add: comp_def)
  from d1 show "distinct (map fst contracts)" .
  from d2 show "distinct (map (\<lambda>c. address (snd c)) contracts)" .
  show "\<exists>info'. (name, info') \<in> set contracts \<and> address info' = address info"
    if "(name, info) \<in> set CONTRACTS"
  proof -
    from that have "(name, address info) \<in> set (map (\<lambda>c. (fst c, address (snd c))) CONTRACTS)"
      by force
    with m have "(name, address info) \<in> set (map (\<lambda>c. (fst c, address (snd c))) contracts)"
      by simp
    then show ?thesis by auto
  qed
  from a show "list_all (\<lambda>c. args (snd c) \<noteq> None) contracts" .
qed

text \<open>
  C1. On the registry of the script \<open>compute_constructor_args\<close> raises nothing and
  leaves names, addresses and sources as they are. It sets the \<open>args\<close> of ClawRegistry to
  \<open>0x\<close>, \<open>encode_address\<close> of ClawRenderer's address, \<open>encode_uint256(500000000000000)\<close>
  and \<open>encode_address\<close> of the deployer address, and the \<open>args\<close> of ClawEvolution and of
  ClawReputation to \<open>0x\<close> and \<open>encode_address\<close> of ClawRegistry's address. Called again
  on its own result it returns that result unchanged.
\<close>

theorem compute_constructor_args_resolves:
  "(case compute_constructor_args CONTRACTS of
      Inl e \<Rightarrow> False
    | Inr reg \<Rightarrow>
        map (\<lambda>c. (fst c, address (snd c), source (snd c))) reg =
          map (\<lambda>c. (fst c, address (snd c), source (snd c))) CONTRACTS
      \<and> (case (getitem reg ''ClawRenderer'', getitem reg ''ClawRegistry'',
                getitem reg ''ClawEvolution'', getitem reg ''ClawReputation'') of
            (Inr renderer, Inr registry, Inr evolution, Inr reputation) \<Rightarrow>
                args renderer = Some ''0x''
              \<and> args registry =
                  Some (''0x'' @ encode_address (address renderer)
                          @ encode_uint256 500000000000000 @ encode_address DEPLOYER)
              \<and> args evolution = Some (''0x'' @ encode_address (address registry))
              \<and> args reputation = Some (''0x'' @ encode_address (address registry))
          | _ \<Rightarrow> False)
      \<and> compute_constructor_args reg = Inr reg)"
  by code_simp

section \<open>The verification client\<close>


lemma keys_setitem_new: "k \<notin> set (map fst d) \<Longrightarrow> map fst (setitem d k v) = map fst d @ [k]"
proof -
  assume "k \<notin> set (map fst d)"
  then have "map_of d k = None" by (simp add: map_of_eq_None_iff)
  then show ?thesis by (simp add: setitem_def)
qed

lemma submit_verification_cases:
  "submit_verification env name info sc sv zv log =
     (case net_post env (length log) of
        Inr vid \<Rightarrow> Inr (Some vid)
      | Inl e \<Rightarrow> if is_caught e then Inr None else Inl (raised e),
      log @ [POST (build_request name info sc sv zv) (net_post env (length log))])"
  by (simp add: submit_verification_def is_caught_def raised_def Let_def
           split: sum.splits error.splits)

lemma submit_verification_unreadable_body:
  "net_post env (length log) = Inl (HTTPError code (Inl e)) \<Longrightarrow>
   submit_verification env name info sc sv zv log =
     (Inl e, log @ [POST (build_request name info sc sv zv) (Inl (HTTPError code (Inl e)))])"
  by (simp add: submit_verification_def)

lemma wait_for_verification_log:
  "wait_for_verification env vid name n log = (r, log') \<Longrightarrow>
     \<exists>new. log' = log @ new \<and> list_all is_GET new"
proof (induction n arbitrary: log)
  case 0
  then show ?case by simp
next
  case (Suc n)
  let ?log1 = "log @ [GET vid (net_get env (length log))]"
  from Suc.prems consider
      "log' = ?log1"
    | "wait_for_verification env vid name n ?log1 = (r, log')"
    by (auto simp: check_status_def Let_def split: sum.splits if_splits)
  then show ?case
  proof cases
    case 1
    then show ?thesis by (simp add: is_GET_def)
  next
    case 2
    from Suc.IH [OF 2] obtain new where "log' = ?log1 @ new" "list_all is_GET new" by blast
    then have "log' = log @ (GET vid (net_get env (length log)) # new)"
      "list_all is_GET (GET vid (net_get env (length log)) # new)"
      by (simp_all add: is_GET_def)
    then show ?thesis by blast
  qed
qed





section \<open>The verification orchestrator\<close>

lemma verify_all_Cons:
  "verify_all env fmt sc sv zv ((name, info) # rest) results log =
     (case args info of
        None \<Rightarrow> (Inl TypeError, log)
      | Some a \<Rightarrow>
          (case net_post env (length log) of
             Inl e \<Rightarrow>
               if is_caught e
               then verify_all env fmt sc sv zv rest
                      (setitem results name ''FAILED (submission error)'')
                      (log @ [POST (build_request name info sc sv zv) (Inl e)])
               else (Inl (raised e), log @ [POST (build_request name info sc sv zv) (Inl e)])
           | Inr vid \<Rightarrow>
               (case wait_for_verification env vid name max_retries_default
                       (log @ [POST (build_request name info sc sv zv) (Inr vid)]) of
                  (Inl e, log2) \<Rightarrow> (Inl e, log2)
                | (Inr (success, err), log2) \<Rightarrow>
                    verify_all env fmt sc sv zv rest
                      (setitem results name
                         (if success then ''VERIFIED'' else ''FAILED: '' @ py_str fmt err))
                      log2)))"
  by (simp add: submit_verification_cases split: option.splits sum.splits)

declare verify_all.simps(2) [simp del]

lemma verify_all_log:
  "verify_all env fmt sc sv zv cs results log = (r, log') \<Longrightarrow> \<exists>new. log' = log @ new"
proof (induction cs arbitrary: results log)
  case Nil
  then show ?case by simp
next
  case (Cons c cs)
  obtain name info where c: "c = (name, info)" by (cases c)
  show ?case
  proof (cases "args info")
    case None
    with Cons.prems c show ?thesis by (auto simp: verify_all_Cons)
  next
    case (Some a)
    let ?req = "build_request name info sc sv zv"
    show ?thesis
    proof (cases "net_post env (length log)")
      case (Inl e)
      let ?log1 = "log @ [POST ?req (Inl e)]"
      show ?thesis
      proof (cases "is_caught e")
        case True
        with Cons.prems c Some Inl have
          "verify_all env fmt sc sv zv cs (setitem results name ''FAILED (submission error)'')
             ?log1 = (r, log')"
          by (simp add: verify_all_Cons)
        from Cons.IH [OF this] show ?thesis by auto
      next
        case False
        with Cons.prems c Some Inl show ?thesis by (auto simp: verify_all_Cons)
      qed
    next
      case (Inr vid)
      let ?log1 = "log @ [POST ?req (Inr vid)]"
      obtain w log2 where w: "wait_for_verification env vid name max_retries_default ?log1 = (w, log2)"
        by (cases "wait_for_verification env vid name max_retries_default ?log1")
      from wait_for_verification_log [OF w] obtain gets where g: "log2 = ?log1 @ gets" by blast
      show ?thesis
      proof (cases w)
        case (Inl e)
        with Cons.prems c Some Inr w g show ?thesis by (auto simp: verify_all_Cons)
      next
        case (Inr p)
        obtain success err where p: "p = (success, err)" by (cases p)
        with Cons.prems c Some \<open>net_post env (length log) = Inr vid\<close> w Inr have
          "verify_all env fmt sc sv zv cs
             (setitem results name (if success then ''VERIFIED'' else ''FAILED: '' @ py_str fmt err))
             log2 = (r, log')"
          by (simp add: verify_all_Cons)
        from Cons.IH [OF this] g show ?thesis by auto
      qed
    qed
  qed
qed

lemma verify_all_step:
  assumes "verify_all env fmt sc sv zv ((name, info) # rest) results log = (r, log @ new)"
  obtains
    (no_args) "args info = None" "r = Inl TypeError" "new = []"
  | (abort) e where "\<not> is_caught e" "r = Inl (raised e)"
      "new = [POST (build_request name info sc sv zv) (Inl e)]"
  | (rejected) e new' where "is_caught e"
      "new = POST (build_request name info sc sv zv) (Inl e) # new'"
      "verify_all env fmt sc sv zv rest (setitem results name ''FAILED (submission error)'')
         (log @ [POST (build_request name info sc sv zv) (Inl e)])
       = (r, (log @ [POST (build_request name info sc sv zv) (Inl e)]) @ new')"
  | (poll_abort) vid e gets where "list_all is_GET gets" "r = Inl e"
      "new = POST (build_request name info sc sv zv) (Inr vid) # gets"
  | (polled) vid success err gets new' where "list_all is_GET gets"
      "new = POST (build_request name info sc sv zv) (Inr vid) # gets @ new'"
      "verify_all env fmt sc sv zv rest
         (setitem results name (if success then ''VERIFIED'' else ''FAILED: '' @ py_str fmt err))
         (log @ POST (build_request name info sc sv zv) (Inr vid) # gets)
       = (r, (log @ POST (build_request name info sc sv zv) (Inr vid) # gets) @ new')"
proof (cases "args info")
  case None
  with assms have "r = Inl TypeError" "new = []" by (simp_all add: verify_all_Cons)
  with None show ?thesis by (rule no_args)
next
  case (Some a)
  let ?req = "build_request name info sc sv zv"
  show ?thesis
  proof (cases "net_post env (length log)")
    case (Inl e)
    let ?log1 = "log @ [POST ?req (Inl e)]"
    show ?thesis
    proof (cases "is_caught e")
      case True
      with assms Some Inl have run:
        "verify_all env fmt sc sv zv rest (setitem results name ''FAILED (submission error)'')
           ?log1 = (r, log @ new)"
        by (simp add: verify_all_Cons)
      from verify_all_log [OF run] obtain new' where n: "log @ new = ?log1 @ new'" by blast
      then have "new = POST ?req (Inl e) # new'" by simp
      with True run n show ?thesis by (intro rejected [of e new']) simp_all
    next
      case False
      with assms Some Inl have "r = Inl (raised e)" "new = [POST ?req (Inl e)]"
        by (simp_all add: verify_all_Cons)
      with False show ?thesis by (rule abort)
    qed
  next
    case (Inr vid)
    let ?log1 = "log @ [POST ?req (Inr vid)]"
    obtain w log2 where w: "wait_for_verification env vid name max_retries_default ?log1 = (w, log2)"
      by (cases "wait_for_verification env vid name max_retries_default ?log1")
    from wait_for_verification_log [OF w] obtain gets
      where g: "log2 = ?log1 @ gets" "list_all is_GET gets" by blast
    show ?thesis
    proof (cases w)
      case (Inl e)
      with assms Some Inr w g have "r = Inl e" "new = POST ?req (Inr vid) # gets"
        by (simp_all add: verify_all_Cons)
      with g(2) show ?thesis by (rule poll_abort)
    next
      case (Inr p)
      obtain success err where p: "p = (success, err)" by (cases p)
      with assms Some \<open>net_post env (length log) = Inr vid\<close> w Inr have run:
        "verify_all env fmt sc sv zv rest
           (setitem results name (if success then ''VERIFIED'' else ''FAILED: '' @ py_str fmt err))
           log2 = (r, log @ new)"
        by (simp add: verify_all_Cons)
      from verify_all_log [OF run] obtain new' where n: "log @ new = log2 @ new'" by blast
      with g have "new = POST ?req (Inr vid) # gets @ new'" by simp
      with g run n show ?thesis by (intro polled [of gets vid new' success err]) simp_all
    qed
  qed
qed


lemma POST_not_in_gets: "list_all is_GET gets \<Longrightarrow> POST req out \<notin> set gets"
  by (auto simp: list_all_iff is_GET_def)

lemma contractAddress_build_request [simp]:
  "contractAddress (build_request name info sc sv zv) = address info"
  by (simp add: build_request_def)

lemma verify_all_keys:
  "verify_all env fmt sc sv zv cs results log = (Inr results', log') \<Longrightarrow>
   distinct (map fst results @ map fst cs) \<Longrightarrow>
   map fst results' = map fst results @ map fst cs"
proof (induction cs arbitrary: results log log')
  case Nil
  then show ?case by simp
next
  case (Cons c cs)
  obtain name info where c: "c = (name, info)" by (cases c)
  from verify_all_log [OF Cons.prems(1)] obtain new where n: "log' = log @ new" by blast
  from Cons.prems(2) c have fresh: "name \<notin> set (map fst results)" by auto
  have d: "distinct (map fst (setitem results name v) @ map fst cs)" for v
    using Cons.prems(2) c by (simp add: keys_setitem_new [OF fresh])
  from Cons.prems(1) [unfolded c n] show ?case
  proof (cases rule: verify_all_step)
    case (rejected e new')
    from Cons.IH [OF rejected(3) d] c show ?thesis
      by (simp add: keys_setitem_new [OF fresh])
  next
    case (polled vid success err gets new')
    from Cons.IH [OF polled(3) d] c show ?thesis
      by (simp add: keys_setitem_new [OF fresh])
  qed simp_all
qed





lemma verify_all_abort:
  "verify_all env fmt sc sv zv cs results log = (r, log @ new) \<Longrightarrow>
   POST req (Inl e) \<in> set new \<Longrightarrow> \<not> is_caught e \<Longrightarrow>
   r = Inl (raised e) \<and> new \<noteq> [] \<and> last new = POST req (Inl e)"
proof (induction cs arbitrary: results log new)
  case Nil
  then show ?case by simp
next
  case (Cons c cs)
  obtain name info where c: "c = (name, info)" by (cases c)
  from Cons.prems(1) [unfolded c] show ?case
  proof (cases rule: verify_all_step)
    case no_args
    with Cons.prems(2) show ?thesis by simp
  next
    case (abort e0)
    with Cons.prems(2) show ?thesis by auto
  next
    case (rejected e0 new')
    with Cons.prems(2,3) have ev: "POST req (Inl e) \<in> set new'" by auto
    from Cons.IH [OF rejected(3) ev Cons.prems(3)] rejected(2) show ?thesis by simp
  next
    case (poll_abort vid e0 gets)
    with Cons.prems(2) POST_not_in_gets [OF poll_abort(1)] show ?thesis by auto
  next
    case (polled vid success err gets new')
    with Cons.prems(2) POST_not_in_gets [OF polled(1)]
    have ev: "POST req (Inl e) \<in> set new'" by auto
    from Cons.IH [OF polled(3) ev Cons.prems(3)] polled(2) show ?thesis by simp
  qed
qed

lemma main_run:
  assumes "main env fmt = (r, log)"
  obtains
    (halted) e where "r = Inl e" "log = []"
  | (looped) contracts sc sv zv r' where
      "compute_constructor_args CONTRACTS = Inr contracts"
      "load_source_code env = Inr (sc, sv)"
      "get_zksolc_version env fmt = Inr zv"
      "verify_all env fmt sc sv zv contracts [] [] = (r', log)"
      "r = (case r' of
              Inl e \<Rightarrow> Inl e
            | Inr results \<Rightarrow>
                Inr (results, list_all (\<lambda>r. r = ''VERIFIED'') (map snd results)))"
  using assms unfolding main_def
  by (auto split: sum.splits prod.splits)




lemma not_HTTPError_propagates: "\<not> is_HTTPError e \<Longrightarrow> \<not> is_caught e \<and> raised e = e"
  by (cases e) (simp_all add: is_HTTPError_def is_caught_def raised_def)


text \<open>
  C2. The exit code is 0 exactly when \<open>main\<close> returns \<open>True\<close>, and then the report has
  one entry for each contract of the registry, in its order, and every entry is
  \<open>VERIFIED\<close>; in every other run, one that ends in an uncaught exception among them, it
  is 1. Whenever \<open>main\<close> returns, its value is \<open>True\<close> exactly when every entry of the
  report is \<open>VERIFIED\<close>.
\<close>

theorem exit_code_zero_iff_all_verified:
  "(exit_code (fst (main env fmt)) = 0 \<longleftrightarrow>
      (\<exists>results. fst (main env fmt) = Inr (results, True)
         \<and> map fst results = map fst CONTRACTS
         \<and> list_all (\<lambda>result. result = ''VERIFIED'') (map snd results)))
   \<and> (exit_code (fst (main env fmt)) \<noteq> 0 \<longrightarrow> exit_code (fst (main env fmt)) = 1)
   \<and> (\<forall>results ok. fst (main env fmt) = Inr (results, ok) \<longrightarrow>
         map fst results = map fst CONTRACTS
         \<and> (ok \<longleftrightarrow> list_all (\<lambda>result. result = ''VERIFIED'') (map snd results)))"
proof -
  obtain r log where m: "main env fmt = (r, log)" by (cases "main env fmt")
  have shape: "map fst results = map fst CONTRACTS
         \<and> (ok \<longleftrightarrow> list_all (\<lambda>result. result = ''VERIFIED'') (map snd results))"
    if "r = Inr (results, ok)" for results ok
    using m
  proof (cases rule: main_run)
    case (halted e)
    with that show ?thesis by simp
  next
    case (looped contracts sc sv zv r')
    from that looped(5) have r': "r' = Inr results"
      and ok: "ok \<longleftrightarrow> list_all (\<lambda>r. r = ''VERIFIED'') (map snd results)"
      by (auto split: sum.splits)
    from resolved_facts(3) [OF looped(1)] have "distinct (map fst [] @ map fst contracts)" by simp
    from verify_all_keys [OF looped(4) [unfolded r'] this] resolved_facts(1) [OF looped(1)] ok
    show ?thesis by simp
  qed
  have code: "exit_code r = 0 \<or> exit_code r = 1"
    by (auto simp: exit_code_def split: sum.splits)
  have zero: "exit_code r = 0 \<longleftrightarrow> (\<exists>results. r = Inr (results, True))"
    by (auto simp: exit_code_def split: sum.splits)
  from m have f: "fst (main env fmt) = r" by simp
  show ?thesis unfolding f using shape code zero by blast
qed

theorem exit_code_zero_iff_all_verified_witness:
  "exit_code (fst (main env_all_verified example_fmt)) = 0
   \<and> (\<exists>results.
         fst (main env_all_verified example_fmt) = Inr (results, True)
       \<and> map fst results = map fst CONTRACTS
       \<and> list_all (\<lambda>result. result = ''VERIFIED'') (map snd results))"
proof -
  have z: "exit_code (fst (main env_all_verified example_fmt)) = 0" by code_simp
  with exit_code_zero_iff_all_verified [of env_all_verified example_fmt] show ?thesis by blast
qed

text \<open>
  C9. When the listing of the build-info directory has no name that ends in \<open>.json\<close>,
  \<open>load_source_code\<close> raises (the \<open>IndexError\<close> of \<open>files[0]\<close>), and \<open>main\<close> ends
  with that exception without having made any network call.
\<close>

theorem no_build_info_fails_before_network:
  assumes "fs_listdir env build_dir = Inr names"
      and "filter (\<lambda>f. endswith f ''.json'') names = []"
  shows "load_source_code env = Inl IndexError \<and> main env fmt = (Inl IndexError, [])"
proof -
  from assms have l: "load_source_code env = Inl IndexError"
    by (simp add: load_source_code_def read_build_info_def)
  from resolved_registry obtain contracts
    where "compute_constructor_args CONTRACTS = Inr contracts"
    by (cases "compute_constructor_args CONTRACTS") simp_all
  with l show ?thesis by (simp add: main_def)
qed

theorem no_build_info_fails_before_network_witness:
  "fs_listdir env_no_build_info build_dir = Inr [''README.md'', ''5f2c.json.bak'']
   \<and> filter (\<lambda>f. endswith f ''.json'') [''README.md'', ''5f2c.json.bak''] = []
   \<and> load_source_code env_no_build_info = Inl IndexError
   \<and> main env_no_build_info example_fmt = (Inl IndexError, [])"
proof -
  have h1: "fs_listdir env_no_build_info build_dir = Inr [''README.md'', ''5f2c.json.bak'']"
    by (simp add: env_no_build_info_def example_env_def)
  have h2: "filter (\<lambda>f. endswith f ''.json'') [''README.md'', ''5f2c.json.bak''] = []"
    by code_simp
  from h1 h2 no_build_info_fails_before_network [OF h1 h2, of example_fmt]
  show ?thesis by blast
qed




text \<open>
  C10. \<open>submit_verification\<close> turns an \<open>HTTPError\<close> whose error body it can read into
  \<open>None\<close> and lets every other exception of the POST pass. When a submission fails with
  an exception that is no \<open>HTTPError\<close> (a \<open>URLError\<close>, say), \<open>main\<close> ends with this
  exception and no report, that submission is the last network call of the run, and the
  exit code is 1.
\<close>

theorem transport_error_aborts_run:
  assumes "POST req (Inl e) \<in> set (snd (main env fmt))"
      and "\<not> is_HTTPError e"
  shows "fst (main env fmt) = Inl e
       \<and> last (snd (main env fmt)) = POST req (Inl e)
       \<and> exit_code (fst (main env fmt)) = 1
       \<and> fst (submit_verification env name info sc sv zv log) =
           (case net_post env (length log) of
              Inr vid \<Rightarrow> Inr (Some vid)
            | Inl (HTTPError code (Inr error_body)) \<Rightarrow> Inr None
            | Inl (HTTPError code (Inl e')) \<Rightarrow> Inl e'
            | Inl e' \<Rightarrow> Inl e')"
proof -
  obtain r l where m: "main env fmt = (r, l)" by (cases "main env fmt")
  with assms(1) have ev: "POST req (Inl e) \<in> set l" by simp
  from assms(2) have nc: "\<not> is_caught e" and re: "raised e = e"
    using not_HTTPError_propagates by blast+
  from m have "r = Inl e \<and> last l = POST req (Inl e)"
  proof (cases rule: main_run)
    case (halted e0)
    with ev show ?thesis by simp
  next
    case (looped contracts sc' sv' zv' r')
    from looped(4) have "verify_all env fmt sc' sv' zv' contracts [] [] = (r', [] @ l)" by simp
    from verify_all_abort [OF this ev nc] re looped(5) show ?thesis by simp
  qed
  moreover have "fst (submit_verification env name info sc sv zv log) =
           (case net_post env (length log) of
              Inr vid \<Rightarrow> Inr (Some vid)
            | Inl (HTTPError code (Inr error_body)) \<Rightarrow> Inr None
            | Inl (HTTPError code (Inl e')) \<Rightarrow> Inl e'
            | Inl e' \<Rightarrow> Inl e')"
    by (simp add: submit_verification_def Let_def split: sum.splits error.splits)
  ultimately show ?thesis using m by (simp add: exit_code_def)
qed

theorem transport_error_aborts_run_witness:
  "POST (build_request ''ClawRenderer''
           \<lparr>address = ''0x90f493bfB740F00E6Cf280f4B9A6943d4b96d274'',
            source = ''contracts/ClawRenderer.sol'', args = Some ''0x''\<rparr>
           (JObj [(''language'', JStr ''Solidity'')]) (JStr ''0.8.24'') ''v1.5.7'')
        (Inl URLError)
     \<in> set (snd (main env_unreachable example_fmt))
   \<and> \<not> is_HTTPError URLError
   \<and> main env_unreachable example_fmt =
       (Inl URLError,
        [POST (build_request ''ClawRenderer''
                 \<lparr>address = ''0x90f493bfB740F00E6Cf280f4B9A6943d4b96d274'',
                  source = ''contracts/ClawRenderer.sol'', args = Some ''0x''\<rparr>
                 (JObj [(''language'', JStr ''Solidity'')]) (JStr ''0.8.24'') ''v1.5.7'')
              (Inl URLError)])
   \<and> exit_code (fst (main env_unreachable example_fmt)) = 1"
proof -
  let ?req = "build_request ''ClawRenderer''
           \<lparr>address = ''0x90f493bfB740F00E6Cf280f4B9A6943d4b96d274'',
            source = ''contracts/ClawRenderer.sol'', args = Some ''0x''\<rparr>
           (JObj [(''language'', JStr ''Solidity'')]) (JStr ''0.8.24'') ''v1.5.7''"
  have h1: "POST ?req (Inl URLError) \<in> set (snd (main env_unreachable example_fmt))"
    by code_simp
  have h2: "\<not> is_HTTPError URLError" by (simp add: is_HTTPError_def)
  have v: "main env_unreachable example_fmt = (Inl URLError, [POST ?req (Inl URLError)])"
    by code_simp
  from transport_error_aborts_run [OF h1 h2]
  have "exit_code (fst (main env_unreachable example_fmt)) = 1" by blast
  with h1 h2 v show ?thesis by blast
qed

end
